theory Spec2Isabelle
  imports Main "HOL-Library.Word"
begin

section \<open>Python string primitives used by the sources\<close>

text \<open>
  A Python \<open>str\<close> is modelled as a \<open>string\<close> whose characters are the code points
  below 256. \<open>isspace\<close> lists the code points in that range that Python's
  \<open>str.isspace\<close> accepts; \<open>str.strip()\<close> removes exactly those from both ends.
\<close>

definition isspace :: "char \<Rightarrow> bool" where
  "isspace c = (c \<in> set [CHR 0x09, CHR 0x0A, CHR 0x0B, CHR 0x0C, CHR 0x0D,
                          CHR 0x1C, CHR 0x1D, CHR 0x1E, CHR 0x1F, CHR 0x20,
                          CHR 0x85, CHR 0xA0])"

definition strip :: "string \<Rightarrow> string" where
  "strip s = rev (dropWhile isspace (rev (dropWhile isspace s)))"

definition startswith :: "string \<Rightarrow> string \<Rightarrow> bool" where
  "startswith s p = (take (length p) s = p)"

text \<open>\<open>s.split(sep)\<close> for a one-character separator: one more field than separators.\<close>

fun split_on :: "char \<Rightarrow> string \<Rightarrow> string list" where
  "split_on sep [] = [[]]"
| "split_on sep (c # cs) =
     (if c = sep then [] # split_on sep cs
      else (case split_on sep cs of
              [] \<Rightarrow> [[c]]
            | f # fs \<Rightarrow> (c # f) # fs))"

text \<open>
  \<open>s.find(sub, start)\<close>: the lowest index \<open>\<ge> start\<close> at which \<open>sub\<close> occurs,
  or \<open>-1\<close>. \<open>find_from sub t i\<close> scans the remainder \<open>t\<close> that begins at index \<open>i\<close>.
\<close>

fun find_from :: "string \<Rightarrow> string \<Rightarrow> nat \<Rightarrow> int" where
  "find_from sub [] i = (if sub = [] then int i else - 1)"
| "find_from sub (c # cs) i =
     (if startswith (c # cs) sub then int i else find_from sub cs (Suc i))"

definition str_find :: "string \<Rightarrow> string \<Rightarrow> nat \<Rightarrow> int" where
  "str_find s sub start =
     (if length s < start then - 1 else find_from sub (drop start s) start)"

text \<open>
  \<open>s[a:b]\<close> with Python's treatment of the bounds: a negative bound counts from the
  end, and both bounds are clamped to \<open>0 .. len(s)\<close>.
\<close>

definition slice_bound :: "nat \<Rightarrow> int \<Rightarrow> nat" where
  "slice_bound n i = (if i < 0 then nat (max 0 (i + int n)) else min (nat i) n)"

definition str_slice :: "string \<Rightarrow> int \<Rightarrow> int \<Rightarrow> string" where
  "str_slice s a b =
     (let lo = slice_bound (length s) a; hi = slice_bound (length s) b
      in take (hi - lo) (drop lo s))"


section \<open>The environment: files as the interpreter presents them\<close>

text \<open>
  The exceptions are the ones that testing, opening, decompressing and decoding a file
  can raise; each carries its message (\<open>str(exc)\<close>).
\<close>

type_synonym path = string

datatype exn =
    OSError string
  | BadGzipFile string
  | EOFError string
  | ZlibError string
  | UnicodeDecodeError string

fun exn_str :: "exn \<Rightarrow> string" where
  "exn_str (OSError m) = m"
| "exn_str (BadGzipFile m) = m"
| "exn_str (EOFError m) = m"
| "exn_str (ZlibError m) = m"
| "exn_str (UnicodeDecodeError m) = m"

text \<open>
  \<open>except (OSError, gzip.BadGzipFile)\<close>: \<open>BadGzipFile\<close> is a subclass of \<open>OSError\<close>;
  \<open>EOFError\<close>, \<open>zlib.error\<close> and \<open>UnicodeDecodeError\<close> are not.
\<close>

fun is_os_error :: "exn \<Rightarrow> bool" where
  "is_os_error (OSError m) = True"
| "is_os_error (BadGzipFile m) = True"
| "is_os_error (EOFError m) = False"
| "is_os_error (ZlibError m) = False"
| "is_os_error (UnicodeDecodeError m) = False"

datatype opener = PlainOpen | GzipOpen

text \<open>
  Reading a text handle yields lines (each as the iterator returns it, line terminator
  included) until the end of the file, or raises part-way.
\<close>

datatype event = Line string | Raise exn

type_synonym byte = "8 word"

text \<open>
  What the file system answers for a path, given as the string of the \<open>Path\<close> object:
  \<open>Path.exists()\<close> returns a boolean or re-raises an \<open>OSError\<close> it does not ignore
  (permission denied on a parent directory, name too long); opening succeeds or raises.
\<close>

record env =
  path_exists :: "path \<Rightarrow> exn + bool"
  open_text :: "opener \<Rightarrow> path \<Rightarrow> exn + event list"
  open_bytes :: "path \<Rightarrow> exn + byte list"

text \<open>
  \<open>pathlib\<close> on POSIX, as of CPython 3.11. \<open>Path(s)\<close> keeps a root of one slash, or of
  two when \<open>s\<close> begins with exactly two, and the components between slashes that are
  neither empty nor \<open>.\<close>; \<open>str\<close> joins them again and is \<open>.\<close> when nothing is left.
  \<open>path_str s\<close> is \<open>str(Path(s))\<close>, \<open>path_name s\<close> is \<open>Path(s).name\<close> and
  \<open>suffix s\<close> is \<open>Path(s).suffix\<close>.
\<close>

definition path_root :: "string \<Rightarrow> string" where
  "path_root s =
     (let n = length (takeWhile (\<lambda>c. c = CHR ''/'') s)
      in if n = 0 then [] else if n = 2 then ''//'' else ''/'')"

definition path_components :: "string \<Rightarrow> string list" where
  "path_components s =
     filter (\<lambda>x. x \<noteq> [] \<and> x \<noteq> ''.'')
       (split_on CHR ''/'' (dropWhile (\<lambda>c. c = CHR ''/'') s))"

fun slash_join :: "string list \<Rightarrow> string" where
  "slash_join [] = []"
| "slash_join [x] = x"
| "slash_join (x # y # ys) = x @ CHR ''/'' # slash_join (y # ys)"

definition path_str :: "string \<Rightarrow> path" where
  "path_str s =
     (let body = path_root s @ slash_join (path_components s)
      in if body = [] then ''.'' else body)"

definition path_name :: "string \<Rightarrow> string" where
  "path_name s = (case path_components s of [] \<Rightarrow> [] | x # xs \<Rightarrow> last (x # xs))"

definition rfind_char :: "char \<Rightarrow> string \<Rightarrow> int" where
  "rfind_char c s =
     (if c \<in> set s then int (length s) - 1 - int (length (takeWhile (\<lambda>x. x \<noteq> c) (rev s)))
      else - 1)"

definition suffix :: "string \<Rightarrow> string" where
  "suffix s =
     (let name = path_name s; i = rfind_char CHR ''.'' name
      in if 0 < i \<and> i < int (length name) - 1 then drop (nat i) name else [])"

definition opener_for :: "string \<Rightarrow> opener" where
  "opener_for p = (if suffix p = ''.gz'' then GzipOpen else PlainOpen)"

section \<open>inspector.py\<close>

record InspectionResult =
  file_path :: string
  sample_count :: int
  variant_count :: int
  contigs :: "string list"
  info_fields :: "string list"
  format_fields :: "string list"
  header_line_count :: int

definition TAB :: char where
  "TAB = CHR 0x09"

text \<open>\<open>VCFInspector._parse_meta_line\<close>; \<open>line\<close> is already stripped.\<close>

definition parse_meta_line :: "string \<Rightarrow> InspectionResult \<Rightarrow> InspectionResult" where
  "parse_meta_line line result =
     (if startswith line ''##contig='' then
        (let start = str_find line ''ID='' 0 in
         if start \<ge> 0 then
           (let end0 = str_find line '','' (nat start);
                end1 = (if end0 < 0 then str_find line ''>'' (nat start) else end0);
                contig_id = str_slice line (start + 3) end1
            in if contig_id \<noteq> [] then result\<lparr>contigs := contigs result @ [contig_id]\<rparr>
               else result)
         else result)
      else if startswith line ''##INFO='' then
        (let start = str_find line ''ID='' 0 in
         if start \<ge> 0 then
           (let end0 = str_find line '','' (nat start);
                field_id = str_slice line (start + 3) end0
            in if field_id \<noteq> [] then result\<lparr>info_fields := info_fields result @ [field_id]\<rparr>
               else result)
         else result)
      else if startswith line ''##FORMAT='' then
        (let start = str_find line ''ID='' 0 in
         if start \<ge> 0 then
           (let end0 = str_find line '','' (nat start);
                field_id = str_slice line (start + 3) end0
            in if field_id \<noteq> [] then result\<lparr>format_fields := format_fields result @ [field_id]\<rparr>
               else result)
         else result)
      else result)"

text \<open>The body of the \<open>for line in fh\<close> loop of \<open>VCFInspector.inspect\<close>.\<close>

definition inspect_line :: "string \<Rightarrow> InspectionResult \<Rightarrow> InspectionResult" where
  "inspect_line raw result =
     (let line = strip raw in
      if startswith line ''##'' then
        parse_meta_line line (result\<lparr>header_line_count := header_line_count result + 1\<rparr>)
      else if startswith line ''#CHROM'' then
        (let result1 = result\<lparr>header_line_count := header_line_count result + 1\<rparr>;
             cols = split_on TAB line
         in if int (length cols) > 9 then result1\<lparr>sample_count := int (length cols) - 9\<rparr>
            else result1)
      else if line \<noteq> [] then result\<lparr>variant_count := variant_count result + 1\<rparr>
      else result)"

text \<open>The loop: an exception raised while reading leaves the function at once.\<close>

fun inspect_loop :: "event list \<Rightarrow> InspectionResult \<Rightarrow> exn + InspectionResult" where
  "inspect_loop [] result = Inr result"
| "inspect_loop (Line raw # rest) result = inspect_loop rest (inspect_line raw result)"
| "inspect_loop (Raise e # rest) result = Inl e"

definition fresh_result :: "string \<Rightarrow> InspectionResult" where
  "fresh_result vcf_path =
     \<lparr>file_path = vcf_path, sample_count = 0, variant_count = 0, contigs = [],
      info_fields = [], format_fields = [], header_line_count = 0\<rparr>"

definition inspect :: "env \<Rightarrow> string \<Rightarrow> exn + InspectionResult" where
  "inspect env vcf_path =
     (let path = path_str vcf_path;
          result = fresh_result vcf_path
      in case open_text env (opener_for vcf_path) path of
           Inl e \<Rightarrow> Inl e
         | Inr events \<Rightarrow> inspect_loop events result)"

section \<open>validator.py\<close>

record ValidationReport =
  files_checked :: int
  valid :: int
  invalid :: "string list"
  warnings :: "string list"

definition all_valid :: "ValidationReport \<Rightarrow> bool" where
  "all_valid report = (length (invalid report) = 0)"

definition VCF_HEADER :: string where
  "VCF_HEADER = ''##fileformat=VCF''"

definition PLINK_BED_MAGIC :: "byte list" where
  "PLINK_BED_MAGIC = [0x6C, 0x1B, 0x01]"

definition new_report :: "int \<Rightarrow> ValidationReport" where
  "new_report n = \<lparr>files_checked = n, valid = 0, invalid = [], warnings = []\<rparr>"

text \<open>\<open>fh.readline()\<close> on a freshly opened handle: the empty string at end of file.\<close>

fun readline :: "event list \<Rightarrow> exn + string" where
  "readline [] = Inr []"
| "readline (Line l # rest) = Inr l"
| "readline (Raise e # rest) = Inl e"

definition read_first_line :: "env \<Rightarrow> opener \<Rightarrow> path \<Rightarrow> exn + string" where
  "read_first_line env opener path =
     (case open_text env opener path of
        Inl e \<Rightarrow> Inl e
      | Inr events \<Rightarrow> readline events)"

definition validate_vcf :: "env \<Rightarrow> string \<Rightarrow> exn + ValidationReport" where
  "validate_vcf env vcf_path =
     (let report = new_report 1;
          path = path_str vcf_path
      in case path_exists env path of
           Inl e \<Rightarrow> Inl e
         | Inr found \<Rightarrow>
             if \<not> found then
               Inr (report\<lparr>invalid := invalid report @ [''File not found: '' @ vcf_path]\<rparr>)
             else
               (case read_first_line env (opener_for vcf_path) path of
                  Inr raw \<Rightarrow>
                    (let first_line = strip raw in
                     if startswith first_line VCF_HEADER then Inr (report\<lparr>valid := 1\<rparr>)
                     else Inr (report\<lparr>invalid := invalid report
                                 @ [''Missing VCF header: '' @ vcf_path]\<rparr>))
                | Inl exc \<Rightarrow>
                    if is_os_error exc then
                      Inr (report\<lparr>invalid := invalid report @ [''Read error: '' @ exn_str exc]\<rparr>)
                    else Inl exc))"

text \<open>
  The first loop of \<open>validate_plink_binary\<close>: one entry per missing file; an existence
  test that raises ends the function.
\<close>

fun report_missing ::
  "env \<Rightarrow> (path \<times> string) list \<Rightarrow> ValidationReport \<Rightarrow> exn + ValidationReport" where
  "report_missing env [] report = Inr report"
| "report_missing env ((fp, label) # rest) report =
     (case path_exists env fp of
        Inl e \<Rightarrow> Inl e
      | Inr found \<Rightarrow>
          report_missing env rest
            (if \<not> found then
               report\<lparr>invalid := invalid report @ [''Missing .'' @ label @ '' file: '' @ fp]\<rparr>
             else report))"

definition check_bed :: "env \<Rightarrow> path \<Rightarrow> ValidationReport \<Rightarrow> exn + ValidationReport" where
  "check_bed env bed report =
     (case path_exists env bed of
        Inl e \<Rightarrow> Inl e
      | Inr found \<Rightarrow>
          if found then
            (case open_bytes env bed of
               Inl e \<Rightarrow> Inl e
             | Inr content \<Rightarrow>
                 (let magic = take 3 content in
                  if magic = PLINK_BED_MAGIC then Inr (report\<lparr>valid := valid report + 1\<rparr>)
                  else Inr (report\<lparr>invalid := invalid report
                              @ [''Invalid .bed magic bytes: '' @ bed]\<rparr>)))
          else Inr report)"

text \<open>\<open>if fp.exists(): report.valid += 1\<close> for the two companion files.\<close>

definition count_if_exists :: "env \<Rightarrow> path \<Rightarrow> ValidationReport \<Rightarrow> exn + ValidationReport" where
  "count_if_exists env fp report =
     (case path_exists env fp of
        Inl e \<Rightarrow> Inl e
      | Inr found \<Rightarrow> Inr (if found then report\<lparr>valid := valid report + 1\<rparr> else report))"

definition validate_plink_binary :: "env \<Rightarrow> string \<Rightarrow> exn + ValidationReport" where
  "validate_plink_binary env bfile_prefix =
     (let prefix = path_str bfile_prefix;
          bed = path_str (prefix @ ''.bed'');
          bim = path_str (prefix @ ''.bim'');
          fam = path_str (prefix @ ''.fam'')
      in case report_missing env [(bed, ''bed''), (bim, ''bim''), (fam, ''fam'')] (new_report 3) of
           Inl e \<Rightarrow> Inl e
         | Inr report \<Rightarrow>
             (case check_bed env bed report of
                Inl e \<Rightarrow> Inl e
              | Inr report1 \<Rightarrow>
                  (case count_if_exists env bim report1 of
                     Inl e \<Rightarrow> Inl e
                   | Inr report2 \<Rightarrow> count_if_exists env fam report2)))"

text \<open>The four updates that fold a sub-report into \<open>combined\<close> in \<open>validate_batch\<close>.\<close>

definition aggregate :: "ValidationReport \<Rightarrow> ValidationReport \<Rightarrow> ValidationReport" where
  "aggregate combined sub =
     combined\<lparr>files_checked := files_checked combined + files_checked sub,
              valid := valid combined + valid sub,
              invalid := invalid combined @ invalid sub,
              warnings := warnings combined @ warnings sub\<rparr>"

text \<open>The dispatch on \<open>Path(p).suffix\<close> inside the loop of \<open>validate_batch\<close>.\<close>

definition validate_path :: "env \<Rightarrow> string \<Rightarrow> exn + ValidationReport" where
  "validate_path env p =
     (if suffix p = ''.vcf'' \<or> suffix p = ''.gz'' then validate_vcf env p
      else validate_plink_binary env p)"

fun validate_batch_loop ::
  "env \<Rightarrow> string list \<Rightarrow> ValidationReport \<Rightarrow> exn + ValidationReport" where
  "validate_batch_loop env [] combined = Inr combined"
| "validate_batch_loop env (p # ps) combined =
     (case validate_path env p of
        Inl e \<Rightarrow> Inl e
      | Inr sub \<Rightarrow> validate_batch_loop env ps (aggregate combined sub))"

definition validate_batch :: "env \<Rightarrow> string list \<Rightarrow> exn + ValidationReport" where
  "validate_batch env paths = validate_batch_loop env paths (new_report 0)"

section \<open>Notions used to state the properties\<close>

text \<open>
  The classes of lines that \<open>inspect\<close> tells apart, each decided on the stripped line
  as the loop does.
\<close>

definition is_meta_line :: "string \<Rightarrow> bool" where
  "is_meta_line raw = startswith (strip raw) ''##''"

definition is_column_header :: "string \<Rightarrow> bool" where
  "is_column_header raw = startswith (strip raw) ''#CHROM''"

definition is_blank :: "string \<Rightarrow> bool" where
  "is_blank raw = (strip raw = [])"

definition is_data_line :: "string \<Rightarrow> bool" where
  "is_data_line raw = (\<not> is_blank raw \<and> \<not> is_meta_line raw \<and> \<not> is_column_header raw)"

definition column_count :: "string \<Rightarrow> int" where
  "column_count raw = int (length (split_on TAB (strip raw)))"

text \<open>An environment in which every path is a readable text file with the given lines.\<close>

definition text_env :: "string list \<Rightarrow> env" where
  "text_env ls =
     \<lparr>path_exists = (\<lambda>p. Inr True),
      open_text = (\<lambda>opener p. Inr (map Line ls)),
      open_bytes = (\<lambda>p. Inr [])\<rparr>"

text \<open>An environment in which opening any path as text has the given outcome.\<close>

definition outcome_env :: "exn + event list \<Rightarrow> env" where
  "outcome_env outcome =
     \<lparr>path_exists = (\<lambda>p. Inr True),
      open_text = (\<lambda>opener p. outcome),
      open_bytes = (\<lambda>p. Inr [])\<rparr>"

text \<open>
  The count the specification gives for \<open>variant_count\<close>: the non-blank lines strictly
  after the (first) column-header line.
\<close>

definition lines_after_column_header :: "string list \<Rightarrow> string list" where
  "lines_after_column_header ls = drop 1 (dropWhile (\<lambda>l. \<not> is_column_header l) ls)"

definition nonblank_after_header :: "string list \<Rightarrow> int" where
  "nonblank_after_header ls =
     int (length (filter (\<lambda>l. \<not> is_blank l) (lines_after_column_header ls)))"

text \<open>
  The extraction rule in the specification's words: after the first \<open>ID=\<close>, the value
  runs up to the next \<open>,\<close> that is not escaped by a backslash, or up to a \<open>>\<close> that comes
  before any such comma.
\<close>

fun after_first :: "string \<Rightarrow> string \<Rightarrow> string option" where
  "after_first sub [] = (if sub = [] then Some [] else None)"
| "after_first sub (c # cs) =
     (if startswith (c # cs) sub then Some (drop (length sub) (c # cs)) else after_first sub cs)"

fun spec_id_value :: "string \<Rightarrow> string" where
  "spec_id_value [] = []"
| "spec_id_value [c] = (if c = CHR '','' \<or> c = CHR ''>'' then [] else [c])"
| "spec_id_value (c # d # cs) =
     (if c = CHR 0x5C then c # d # spec_id_value cs
      else if c = CHR '','' \<or> c = CHR ''>'' then []
      else c # spec_id_value (d # cs))"

definition spec_extract_id :: "string \<Rightarrow> string option" where
  "spec_extract_id line =
     (case after_first ''ID='' line of
        None \<Rightarrow> None
      | Some t \<Rightarrow> (if spec_id_value t = [] then None else Some (spec_id_value t)))"

text \<open>
  The keys of a structured meta-line \<open>##TAG=<key1=val1,key2=val2,...>\<close>, in the
  specification's words: the text before \<open>=\<close> in each comma-separated field between
  the angle brackets.
\<close>

definition meta_body :: "string \<Rightarrow> string" where
  "meta_body line =
     rev (drop 1 (dropWhile (\<lambda>c. c \<noteq> CHR ''>'')
       (rev (drop 1 (dropWhile (\<lambda>c. c \<noteq> CHR ''<'') line)))))"

definition meta_keys :: "string \<Rightarrow> string list" where
  "meta_keys line = map (takeWhile (\<lambda>c. c \<noteq> CHR ''='')) (split_on CHR '','' (meta_body line))"

definition has_id_key :: "string \<Rightarrow> bool" where
  "has_id_key line = (''ID'' \<in> set (meta_keys line))"

text \<open>The column-header lines with more than the nine fixed columns.\<close>

definition wide_headers :: "string list \<Rightarrow> string list" where
  "wide_headers ls = filter (\<lambda>l. is_column_header l \<and> 9 < column_count l) ls"

section \<open>Sample inputs\<close>

definition NL :: char where
  "NL = CHR 0x0A"

definition tab_join :: "string list \<Rightarrow> string" where
  "tab_join fs = (case fs of [] \<Rightarrow> [] | f # rest \<Rightarrow> f @ concat (map (\<lambda>g. TAB # g) rest))"

definition meta1 :: string where
  "meta1 = ''##fileformat=VCFv4.2'' @ [NL]"

definition hdr9 :: string where
  "hdr9 = tab_join [''#CHROM'', ''POS'', ''ID'', ''REF'', ''ALT'', ''QUAL'', ''FILTER'', ''INFO'',
     ''FORMAT''] @ [NL]"

definition hdr10 :: string where
  "hdr10 = tab_join [''#CHROM'', ''POS'', ''ID'', ''REF'', ''ALT'', ''QUAL'', ''FILTER'', ''INFO'',
     ''FORMAT'', ''S1''] @ [NL]"

definition data1 :: string where
  "data1 = tab_join [''1'', ''100'', ''rs1'', ''A'', ''G'', ''.'', ''PASS'', ''AC=1'', ''GT'', ''0/1''] @ [NL]"

definition contig1 :: string where
  "contig1 = ''##contig=<ID=1,length=249250621>'' @ [NL]"

definition info_escaped :: string where
  "info_escaped = ''##INFO=<ID=A'' @ [CHR 0x5C] @ '',B,Number=1,Type=Integer>'' @ [NL]"

definition info_uid :: string where
  "info_uid = ''##INFO=<UID=7,Number=1,Type=Integer>'' @ [NL]"

definition source_line :: string where
  "source_line = ''##source=test'' @ [NL]"

definition info_no_id :: string where
  "info_no_id = ''##INFO=<Number=1,Type=Integer>'' @ [NL]"

definition contig2 :: string where
  "contig2 = ''##contig=<ID=2>'' @ [NL]"

text \<open>
  A small file system for the sample inputs: a path names a text file (given by its
  lines), a binary file (given by its bytes), a file holding the given bytes that the
  process has no permission to read, or a directory, or nothing.
\<close>

datatype node =
    TextFile "string list"
  | BinaryFile "byte list"
  | Protected "byte list"
  | Directory

definition fs_env :: "(path \<times> node) list \<Rightarrow> env" where
  "fs_env fs =
     \<lparr>path_exists = (\<lambda>p. Inr (map_of fs p \<noteq> None)),
      open_text = (\<lambda>opener p.
        case map_of fs p of
          None \<Rightarrow> Inl (OSError ''No such file or directory'')
        | Some (TextFile ls) \<Rightarrow> Inr (map Line ls)
        | Some (BinaryFile bs) \<Rightarrow> Inr [Raise (UnicodeDecodeError ''invalid start byte'')]
        | Some (Protected bs) \<Rightarrow> Inl (OSError ''Permission denied'')
        | Some Directory \<Rightarrow> Inl (OSError ''Is a directory'')),
      open_bytes = (\<lambda>p.
        case map_of fs p of
          None \<Rightarrow> Inl (OSError ''No such file or directory'')
        | Some (TextFile ls) \<Rightarrow> Inr (map of_char (concat ls))
        | Some (BinaryFile bs) \<Rightarrow> Inr bs
        | Some (Protected bs) \<Rightarrow> Inl (OSError ''Permission denied'')
        | Some Directory \<Rightarrow> Inl (OSError ''Is a directory''))\<rparr>"

definition bim1 :: string where
  "bim1 = tab_join [''1'', ''rs1'', ''0'', ''100'', ''A'', ''G''] @ [NL]"

definition fam1 :: string where
  "fam1 = ''FAM1 IND1 0 0 1 -9'' @ [NL]"

definition triad_ok :: "(path \<times> node) list" where
  "triad_ok = [(''data.bed'', BinaryFile [0x6C, 0x1B, 0x01, 0x00, 0x00]),
               (''data.bim'', TextFile [bim1]), (''data.fam'', TextFile [fam1])]"

definition triad_no_bed :: "(path \<times> node) list" where
  "triad_no_bed = [(''data.bim'', TextFile [bim1]), (''data.fam'', TextFile [fam1])]"

definition triad_bed_dir :: "(path \<times> node) list" where
  "triad_bed_dir = [(''data.bed'', Directory),
               (''data.bim'', TextFile [bim1]), (''data.fam'', TextFile [fam1])]"

definition triad_bed_protected :: "(path \<times> node) list" where
  "triad_bed_protected = [(''data.bed'', Protected [0x6C, 0x1B, 0x01, 0x00, 0x00]),
               (''data.bim'', TextFile [bim1]), (''data.fam'', TextFile [fam1])]"

definition vcf_ok :: "(path \<times> node) list" where
  "vcf_ok = [(''x.vcf'', TextFile [meta1, hdr10, data1])]"

section \<open>Line classification\<close>

lemma meta_not_column_header: "is_meta_line l \<Longrightarrow> \<not> is_column_header l"
proof
  assume m: "is_meta_line l" and c: "is_column_header l"
  have six: "length ''#CHROM'' = 6" and two: "length ''##'' = 2" by simp_all
  from c have c6: "take 6 (strip l) = ''#CHROM''"
    unfolding is_column_header_def startswith_def six .
  from m have m2: "take 2 (strip l) = ''##''"
    unfolding is_meta_line_def startswith_def two .
  have "take 2 (strip l) = take 2 (take 6 (strip l))" by simp
  also have "\<dots> = ''#C''" by (simp only: c6) simp
  finally show False using m2 by simp
qed

lemma parse_meta_line_counts [simp]:
  "header_line_count (parse_meta_line line r) = header_line_count r"
  "variant_count (parse_meta_line line r) = variant_count r"
  "sample_count (parse_meta_line line r) = sample_count r"
  "file_path (parse_meta_line line r) = file_path r"
  by (simp_all add: parse_meta_line_def Let_def)

lemma inspect_line_header_line_count:
  "header_line_count (inspect_line l r) =
     header_line_count r + (if is_meta_line l \<or> is_column_header l then 1 else 0)"
  by (simp add: inspect_line_def Let_def is_meta_line_def is_column_header_def)

lemma inspect_line_variant_count:
  "variant_count (inspect_line l r) = variant_count r + (if is_data_line l then 1 else 0)"
  by (simp add: inspect_line_def Let_def is_data_line_def is_blank_def is_meta_line_def
      is_column_header_def)

lemma inspect_line_sample_count:
  "sample_count (inspect_line l r) =
     (if is_column_header l \<and> 9 < column_count l then column_count l - 9 else sample_count r)"
  using meta_not_column_header [of l]
  by (auto simp add: inspect_line_def Let_def is_meta_line_def is_column_header_def column_count_def)

lemma inspect_loop_lines:
  "inspect_loop (map Line ls) r = Inr (foldl (\<lambda>acc l. inspect_line l acc) r ls)"
  by (induction ls arbitrary: r) simp_all

lemma foldl_header_line_count:
  "header_line_count (foldl (\<lambda>acc l. inspect_line l acc) r ls) =
     header_line_count r + int (length (filter is_meta_line ls))
       + int (length (filter is_column_header ls))"
proof (induction ls arbitrary: r)
  case Nil
  then show ?case by simp
next
  case (Cons l ls)
  show ?case
    using meta_not_column_header [of l]
    by (auto simp add: Cons.IH inspect_line_header_line_count)
qed

lemma foldl_variant_count:
  "variant_count (foldl (\<lambda>acc l. inspect_line l acc) r ls) =
     variant_count r + int (length (filter is_data_line ls))"
  by (induction ls arbitrary: r) (simp_all add: inspect_line_variant_count)

section \<open>Counts computed by inspect\<close>

lemma foldl_sample_count:
  "sample_count (foldl (\<lambda>acc l. inspect_line l acc) r ls) =
     (if wide_headers ls = [] then sample_count r
      else column_count (last (wide_headers ls)) - 9)"
  by (induction ls rule: rev_induct) (simp_all add: wide_headers_def inspect_line_sample_count)

lemma inspect_lines:
  assumes "open_text env (opener_for p) (path_str p) = Inr (map Line ls)"
  shows "inspect env p = Inr (foldl (\<lambda>acc l. inspect_line l acc) (fresh_result p) ls)"
  using assms by (simp add: inspect_def inspect_loop_lines)

lemma dropWhile_no_header:
  "filter is_column_header pre = [] \<Longrightarrow> is_column_header h \<Longrightarrow>
     dropWhile (\<lambda>l. \<not> is_column_header l) (pre @ h # post) = h # post"
  by (induction pre) (auto split: if_splits)

lemma data_lines_after_header:
  "filter (\<lambda>l. is_meta_line l \<or> is_column_header l) post = [] \<Longrightarrow>
     filter is_data_line post = filter (\<lambda>l. \<not> is_blank l) post"
  by (induction post) (auto simp: is_data_line_def split: if_splits)

lemma ex_classes:
  "is_meta_line meta1" "\<not> is_column_header meta1" "\<not> is_data_line meta1" "\<not> is_blank meta1"
  "\<not> is_meta_line hdr9" "is_column_header hdr9" "\<not> is_data_line hdr9" "\<not> is_blank hdr9"
  "\<not> is_meta_line hdr10" "is_column_header hdr10" "\<not> is_data_line hdr10" "\<not> is_blank hdr10"
  "\<not> is_meta_line data1" "\<not> is_column_header data1" "is_data_line data1" "\<not> is_blank data1"
  "column_count hdr9 = 9" "column_count hdr10 = 10"
  by code_simp+

text \<open>
  C3 (as amended). When the file can be read to its end, \<open>inspect\<close> returns a summary
  whose \<open>header_line_count\<close> is the number of meta-lines plus the number of
  column-header lines; when the file has at most one column-header line this is the
  number of meta-lines plus one if a column-header line is present.
\<close>

theorem inspect_header_line_count:
  assumes "open_text env (opener_for p) (path_str p) = Inr (map Line ls)"
  shows "\<exists>r. inspect env p = Inr r
     \<and> header_line_count r =
         int (length (filter is_meta_line ls)) + int (length (filter is_column_header ls))
     \<and> (length (filter is_column_header ls) \<le> 1 \<longrightarrow>
          header_line_count r =
            int (length (filter is_meta_line ls))
              + (if filter is_column_header ls = [] then 0 else 1))"
proof -
  let ?r = "foldl (\<lambda>acc l. inspect_line l acc) (fresh_result p) ls"
  have run: "inspect env p = Inr ?r" by (rule inspect_lines [OF assms])
  have count: "header_line_count ?r =
      int (length (filter is_meta_line ls)) + int (length (filter is_column_header ls))"
    by (simp add: foldl_header_line_count fresh_result_def)
  have "length (filter is_column_header ls) \<le> 1 \<Longrightarrow>
      int (length (filter is_column_header ls)) = (if filter is_column_header ls = [] then 0 else 1)"
    by (cases "filter is_column_header ls") auto
  with run count show ?thesis by auto
qed

text \<open>
  C3 as stated fails on a file with two column-header lines: both are counted, so
  \<open>header_line_count\<close> is 2 where the stated invariant gives 0 + 1.
\<close>

theorem inspect_header_line_count_counterexample:
  "inspect (text_env [hdr9, hdr9]) ''x.vcf'' =
     Inr \<lparr>file_path = ''x.vcf'', sample_count = 0, variant_count = 0, contigs = [],
          info_fields = [], format_fields = [], header_line_count = 2\<rparr>
   \<and> int (length (filter is_meta_line [hdr9, hdr9]))
        + (if filter is_column_header [hdr9, hdr9] = [] then 0 else 1) = 1"
  by (simp add: inspect_def text_env_def fresh_result_def inspect_line_def Let_def ex_classes
      is_meta_line_def [symmetric] is_column_header_def [symmetric] column_count_def [symmetric])

theorem inspect_header_line_count_witness:
  "\<exists>r. inspect (text_env [meta1, hdr10, data1]) ''x.vcf'' = Inr r \<and> header_line_count r = 2"
  using inspect_header_line_count [of "text_env [meta1, hdr10, data1]" "''x.vcf''" "[meta1, hdr10, data1]"]
  by (simp add: text_env_def ex_classes)


text \<open>
  C2 (as amended). When the file can be read to its end, \<open>variant_count\<close> is the number
  of lines of the whole file that are non-blank and begin neither with \<open>##\<close> nor with
  \<open>#CHROM\<close> once stripped; when only meta-lines and blank lines precede the
  column-header line and neither a meta-line nor another column-header line follows it,
  this is the number of non-blank lines strictly after the column-header line.
\<close>

theorem inspect_variant_count:
  assumes "open_text env (opener_for p) (path_str p) = Inr (map Line ls)"
  shows "\<exists>r. inspect env p = Inr r
     \<and> variant_count r = int (length (filter is_data_line ls))
     \<and> (\<forall>pre h post.
          ls = pre @ h # post \<and> is_column_header h
          \<and> filter is_data_line pre = [] \<and> filter is_column_header pre = []
          \<and> filter (\<lambda>l. is_meta_line l \<or> is_column_header l) post = []
          \<longrightarrow> variant_count r = nonblank_after_header ls)"
proof -
  let ?r = "foldl (\<lambda>acc l. inspect_line l acc) (fresh_result p) ls"
  have run: "inspect env p = Inr ?r" by (rule inspect_lines [OF assms])
  have count: "variant_count ?r = int (length (filter is_data_line ls))"
    by (simp add: foldl_variant_count fresh_result_def)
  have ordered: "int (length (filter is_data_line ls)) = nonblank_after_header ls"
    if ls: "ls = pre @ h # post" and h: "is_column_header h"
      and pre_data: "filter is_data_line pre = []" and pre_hdr: "filter is_column_header pre = []"
      and post: "filter (\<lambda>l. is_meta_line l \<or> is_column_header l) post = []"
    for pre h post
  proof -
    have "lines_after_column_header ls = post"
      by (simp add: lines_after_column_header_def ls dropWhile_no_header [OF pre_hdr h])
    moreover have "filter is_data_line ls = filter is_data_line post"
      using h pre_data by (simp add: ls is_data_line_def)
    ultimately show ?thesis
      by (simp add: nonblank_after_header_def data_lines_after_header [OF post])
  qed
  from run count ordered show ?thesis by (metis (no_types, lifting))
qed

text \<open>
  C2 as stated fails on a file whose data line comes before the column-header line: the
  line is counted although no line follows the header.
\<close>

theorem inspect_variant_count_counterexample:
  "inspect (text_env [data1, hdr9]) ''x.vcf'' =
     Inr \<lparr>file_path = ''x.vcf'', sample_count = 0, variant_count = 1, contigs = [],
          info_fields = [], format_fields = [], header_line_count = 1\<rparr>
   \<and> nonblank_after_header [data1, hdr9] = 0"
  by (simp add: inspect_def text_env_def fresh_result_def inspect_line_def Let_def ex_classes
      nonblank_after_header_def lines_after_column_header_def
      is_meta_line_def [symmetric] is_column_header_def [symmetric] column_count_def [symmetric]
      is_blank_def [symmetric])

theorem inspect_variant_count_witness:
  "\<exists>r. inspect (text_env [meta1, hdr10, data1]) ''x.vcf'' = Inr r \<and> variant_count r = 1
       \<and> variant_count r = nonblank_after_header [meta1, hdr10, data1]"
proof -
  let ?ls = "[meta1, hdr10, data1]"
  have "open_text (text_env ?ls) (opener_for ''x.vcf'') (path_str ''x.vcf'') = Inr (map Line ?ls)"
    by (simp add: text_env_def)
  from inspect_variant_count [OF this] obtain r where
    r: "inspect (text_env ?ls) ''x.vcf'' = Inr r"
      "variant_count r = int (length (filter is_data_line ?ls))"
    and ordered: "\<forall>pre h post.
          ?ls = pre @ h # post \<and> is_column_header h
          \<and> filter is_data_line pre = [] \<and> filter is_column_header pre = []
          \<and> filter (\<lambda>l. is_meta_line l \<or> is_column_header l) post = []
          \<longrightarrow> variant_count r = nonblank_after_header ?ls"
    by blast
  from ordered have "?ls = [meta1] @ hdr10 # [data1] \<and> is_column_header hdr10
          \<and> filter is_data_line [meta1] = [] \<and> filter is_column_header [meta1] = []
          \<and> filter (\<lambda>l. is_meta_line l \<or> is_column_header l) [data1] = []
          \<longrightarrow> variant_count r = nonblank_after_header ?ls"
    by blast
  then have "variant_count r = nonblank_after_header ?ls" by (simp add: ex_classes)
  with r show ?thesis by (simp add: ex_classes)
qed

text \<open>
  C6 (as amended). When the file can be read to its end, \<open>sample_count\<close> is \<open>n - 9\<close>
  for the last column-header line with more than nine columns (\<open>n\<close> its column count
  after stripping) and 0 when there is none; for a file with exactly one column-header
  line, of \<open>n\<close> columns, it is \<open>max 0 (n - 9)\<close>.
\<close>

theorem inspect_sample_count:
  assumes "open_text env (opener_for p) (path_str p) = Inr (map Line ls)"
  shows "\<exists>r. inspect env p = Inr r
     \<and> sample_count r =
         (if wide_headers ls = [] then 0 else column_count (last (wide_headers ls)) - 9)
     \<and> (\<forall>pre h post.
          ls = pre @ h # post \<and> is_column_header h \<and> filter is_column_header (pre @ post) = []
          \<longrightarrow> sample_count r = max 0 (column_count h - 9))"
proof -
  let ?r = "foldl (\<lambda>acc l. inspect_line l acc) (fresh_result p) ls"
  have run: "inspect env p = Inr ?r" by (rule inspect_lines [OF assms])
  have count: "sample_count ?r =
      (if wide_headers ls = [] then 0 else column_count (last (wide_headers ls)) - 9)"
    by (simp add: foldl_sample_count fresh_result_def)
  have single: "(if wide_headers ls = [] then 0 else column_count (last (wide_headers ls)) - 9)
      = max 0 (column_count h - 9)"
    if ls: "ls = pre @ h # post" and h: "is_column_header h"
      and others: "filter is_column_header (pre @ post) = []"
    for pre h post
  proof -
    have none: "filter (\<lambda>l. is_column_header l \<and> 9 < column_count l) xs = []"
      if "filter is_column_header xs = []" for xs
      using that by (induction xs) (auto split: if_splits)
    from others have "wide_headers ls = (if 9 < column_count h then [h] else [])"
      using h by (simp add: wide_headers_def ls none)
    then show ?thesis by simp
  qed
  from run count single show ?thesis by (metis (no_types, lifting))
qed


text \<open>
  C6 as stated fails on a file with two column-header lines, of ten and then nine
  columns: the second leaves \<open>sample_count\<close> at 1 instead of setting it to 0.
\<close>

theorem inspect_sample_count_counterexample:
  "inspect (text_env [hdr10, hdr9]) ''x.vcf'' =
     Inr \<lparr>file_path = ''x.vcf'', sample_count = 1, variant_count = 0, contigs = [],
          info_fields = [], format_fields = [], header_line_count = 2\<rparr>
   \<and> is_column_header hdr9 \<and> column_count hdr9 = 9 \<and> max 0 (column_count hdr9 - 9) = 0"
proof -
  have "inspect_loop [Line hdr10, Line hdr9] (fresh_result ''x.vcf'') =
     Inr \<lparr>file_path = ''x.vcf'', sample_count = 1, variant_count = 0, contigs = [],
          info_fields = [], format_fields = [], header_line_count = 2\<rparr>"
    by code_simp
  then show ?thesis by (simp add: inspect_def text_env_def ex_classes)
qed

theorem inspect_sample_count_witness:
  "\<exists>r. inspect (text_env [meta1, hdr10, data1]) ''x.vcf'' = Inr r \<and> sample_count r = 1
       \<and> sample_count r = max 0 (column_count hdr10 - 9)"
proof -
  let ?ls = "[meta1, hdr10, data1]"
  have "open_text (text_env ?ls) (opener_for ''x.vcf'') (path_str ''x.vcf'') = Inr (map Line ?ls)"
    by (simp add: text_env_def)
  from inspect_sample_count [OF this] obtain r where
    r: "inspect (text_env ?ls) ''x.vcf'' = Inr r"
    and single: "\<forall>pre h post.
          ?ls = pre @ h # post \<and> is_column_header h \<and> filter is_column_header (pre @ post) = []
          \<longrightarrow> sample_count r = max 0 (column_count h - 9)"
    by blast
  from single have "?ls = [meta1] @ hdr10 # [data1] \<and> is_column_header hdr10
          \<and> filter is_column_header ([meta1] @ [data1]) = []
          \<longrightarrow> sample_count r = max 0 (column_count hdr10 - 9)"
    by blast
  then have "sample_count r = max 0 (column_count hdr10 - 9)" by (simp add: ex_classes)
  with r show ?thesis by (simp add: ex_classes)
qed

section \<open>Extraction of identifiers from meta-lines\<close>

lemma startswith_Cons_single [simp]: "startswith (x # xs) [c] \<longleftrightarrow> x = c"
  by (simp add: startswith_def)

lemma find_from_char:
  "c \<notin> set a \<Longrightarrow> find_from [c] (a @ c # b) i = int (i + length a)"
  by (induction a arbitrary: i) auto

lemma find_from_char_none: "c \<notin> set s \<Longrightarrow> find_from [c] s i = - 1"
  by (induction s arbitrary: i) auto

lemma find_from_absent:
  "\<not> (\<exists>pre post. s = pre @ sub @ post) \<Longrightarrow> find_from sub s i = - 1"
proof (induction s arbitrary: i)
  case Nil
  then show ?case by auto
next
  case (Cons c cs)
  have "\<not> startswith (c # cs) sub"
  proof
    assume "startswith (c # cs) sub"
    then have "c # cs = [] @ sub @ drop (length sub) (c # cs)"
      unfolding startswith_def by (metis append_Nil append_take_drop_id)
    with Cons.prems show False by blast
  qed
  moreover have "\<not> (\<exists>pre post. cs = pre @ sub @ post)"
  proof
    assume "\<exists>pre post. cs = pre @ sub @ post"
    then obtain pre post where "cs = pre @ sub @ post" by blast
    then have "c # cs = (c # pre) @ sub @ post" by simp
    with Cons.prems show False by blast
  qed
  ultimately show ?case using Cons.IH by simp
qed

lemma ID_not_at_front:
  assumes "\<not> (\<exists>a b. p # ps = a @ ''ID='' @ b)"
  shows "\<not> startswith (p # ps @ ''ID='' @ rest) ''ID=''"
proof
  assume s: "startswith (p # ps @ ''ID='' @ rest) ''ID=''"
  show False
  proof (cases ps)
    case Nil
    with s show False by (simp add: startswith_def)
  next
    case (Cons q qs)
    show False
    proof (cases qs)
      case Nil
      with s Cons show False by (simp add: startswith_def)
    next
      case (Cons q2 qs2)
      with s \<open>ps = q # qs\<close> have "p # ps = [] @ ''ID='' @ qs2" by (simp add: startswith_def)
      with assms show False by blast
    qed
  qed
qed

lemma find_from_ID_first:
  "\<not> (\<exists>a b. pre = a @ ''ID='' @ b) \<Longrightarrow>
     find_from ''ID='' (pre @ ''ID='' @ rest) i = int (i + length pre)"
proof (induction pre arbitrary: i)
  case Nil
  then show ?case by (simp add: startswith_def)
next
  case (Cons p ps)
  have front: "\<not> startswith (p # ps @ ''ID='' @ rest) ''ID=''"
    by (rule ID_not_at_front [OF Cons.prems])
  have "\<not> (\<exists>a b. ps = a @ ''ID='' @ b)"
  proof
    assume "\<exists>a b. ps = a @ ''ID='' @ b"
    then obtain a b where "ps = a @ ''ID='' @ b" by blast
    then have "p # ps = (p # a) @ ''ID='' @ b" by simp
    with Cons.prems show False by blast
  qed
  from Cons.IH [OF this, of "Suc i"] front show ?case by simp
qed

lemma startswith_append: "startswith s (p @ q) \<Longrightarrow> startswith s p"
proof -
  assume a: "startswith s (p @ q)"
  have "take (length p) s = take (length p) (take (length (p @ q)) s)" by simp
  also have "\<dots> = take (length p) (p @ q)" using a by (simp only: startswith_def)
  finally show ?thesis by (simp add: startswith_def)
qed

lemma tags_are_meta:
  "startswith s ''##contig='' \<Longrightarrow> startswith s ''##''"
  "startswith s ''##INFO='' \<Longrightarrow> startswith s ''##''"
  "startswith s ''##FORMAT='' \<Longrightarrow> startswith s ''##''"
  using startswith_append [of s "''##''" "''contig=''"]
    startswith_append [of s "''##''" "''INFO=''"]
    startswith_append [of s "''##''" "''FORMAT=''"]
  by simp_all

lemma tags_exclusive:
  "startswith s ''##contig='' \<Longrightarrow> \<not> startswith s ''##INFO='' \<and> \<not> startswith s ''##FORMAT=''"
  "startswith s ''##INFO='' \<Longrightarrow> \<not> startswith s ''##FORMAT=''"
proof -
  have three: "startswith s t \<Longrightarrow> length t \<ge> 3 \<Longrightarrow> take 3 s = take 3 t" for t
  proof -
    assume a: "startswith s t" and b: "length t \<ge> 3"
    have "take 3 s = take 3 (take (length t) s)" using b by (simp add: min_def)
    also have "\<dots> = take 3 t" using a by (simp only: startswith_def)
    finally show ?thesis .
  qed
  show "startswith s ''##contig='' \<Longrightarrow> \<not> startswith s ''##INFO='' \<and> \<not> startswith s ''##FORMAT=''"
    using three [of "''##contig=''"] three [of "''##INFO=''"] three [of "''##FORMAT=''"]
    by auto
  show "startswith s ''##INFO='' \<Longrightarrow> \<not> startswith s ''##FORMAT=''"
    using three [of "''##INFO=''"] three [of "''##FORMAT=''"]
    by auto
qed

lemma str_find_ID:
  assumes "\<not> (\<exists>a b. pre = a @ ''ID='' @ b)"
  shows "str_find (pre @ ''ID='' @ rest) ''ID='' 0 = int (length pre)"
  using find_from_ID_first [OF assms, of rest 0] by (simp add: str_find_def)

lemma str_find_char_after_ID:
  assumes "c \<notin> set v" and "c \<noteq> CHR ''I''" and "c \<noteq> CHR ''D''" and "c \<noteq> CHR ''=''"
  shows "str_find (pre @ ''ID='' @ v @ c # rest) [c] (length pre) = int (length pre) + 3 + int (length v)"
proof -
  have "c \<notin> set (''ID='' @ v)" using assms by simp
  from find_from_char [OF this, of rest "length pre"]
  show ?thesis by (simp add: str_find_def)
qed

lemma str_find_char_none_after_ID:
  assumes "c \<notin> set w" and "c \<noteq> CHR ''I''" and "c \<noteq> CHR ''D''" and "c \<noteq> CHR ''=''"
  shows "str_find (pre @ ''ID='' @ w) [c] (length pre) = - 1"
proof -
  have "c \<notin> set (''ID='' @ w)" using assms by simp
  from find_from_char_none [OF this, of "length pre"]
  show ?thesis by (simp add: str_find_def)
qed

lemma slice_value:
  "str_slice (pre @ ''ID='' @ v @ rest) (int (length pre) + 3) (int (length pre) + 3 + int (length v)) = v"
proof -
  have lo: "nat (int (length pre) + 3) = length pre + 3" by simp
  have hi: "nat (int (length pre) + 3 + int (length v)) = length pre + 3 + length v" by simp
  show ?thesis
    by (simp only: str_slice_def slice_bound_def Let_def lo hi) simp
qed

lemma slice_value_last:
  "str_slice (pre @ ''ID='' @ v @ [c]) (int (length pre) + 3) (- 1) = v"
proof -
  have lo: "nat (int (length pre) + 3) = length pre + 3" by simp
  have hi: "nat (max 0 (- 1 + int (length (pre @ ''ID='' @ v @ [c])))) = length pre + 3 + length v"
    by simp
  show ?thesis
    by (simp only: str_slice_def slice_bound_def Let_def lo hi) simp
qed

text \<open>
  What the searches and the slice of \<open>_parse_meta_line\<close> return when a comma follows
  the value, and when only a \<open>>\<close> does.
\<close>

lemma extract_with_comma:
  assumes "\<not> (\<exists>a b. pre = a @ ''ID='' @ b)" and "CHR '','' \<notin> set v"
    and "line = pre @ ''ID='' @ v @ CHR '','' # rest"
  shows "str_find line ''ID='' 0 = int (length pre)"
    and "str_find line '','' (length pre) = int (length pre) + 3 + int (length v)"
    and "str_slice line (int (length pre) + 3) (int (length pre) + 3 + int (length v)) = v"
  using str_find_ID [OF assms(1), of "v @ CHR '','' # rest"]
    str_find_char_after_ID [OF assms(2), of pre rest]
    slice_value [of pre v "CHR '','' # rest"]
  by (simp_all add: assms(3))

lemma extract_with_bracket:
  assumes "\<not> (\<exists>a b. pre = a @ ''ID='' @ b)" and "CHR '','' \<notin> set v" and "CHR ''>'' \<notin> set v"
    and "CHR '','' \<notin> set rest"
    and "line = pre @ ''ID='' @ v @ CHR ''>'' # rest"
  shows "str_find line ''ID='' 0 = int (length pre)"
    and "str_find line '','' (length pre) = - 1"
    and "str_find line ''>'' (length pre) = int (length pre) + 3 + int (length v)"
    and "str_slice line (int (length pre) + 3) (int (length pre) + 3 + int (length v)) = v"
    and "rest = [] \<Longrightarrow> str_slice line (int (length pre) + 3) (- 1) = v"
proof -
  have "CHR '','' \<notin> set (v @ CHR ''>'' # rest)" using assms by simp
  from str_find_char_none_after_ID [OF this, of pre]
  show "str_find line '','' (length pre) = - 1" by (simp add: assms(5))
  show "str_find line ''ID='' 0 = int (length pre)"
    using str_find_ID [OF assms(1), of "v @ CHR ''>'' # rest"] by (simp add: assms(5))
  show "str_find line ''>'' (length pre) = int (length pre) + 3 + int (length v)"
    using str_find_char_after_ID [OF assms(3), of pre rest] by (simp add: assms(5))
  show "str_slice line (int (length pre) + 3) (int (length pre) + 3 + int (length v)) = v"
    using slice_value [of pre v "CHR ''>'' # rest"] by (simp add: assms(5))
  show "rest = [] \<Longrightarrow> str_slice line (int (length pre) + 3) (- 1) = v"
    using slice_value_last [of pre v "CHR ''>''"] by (simp add: assms(5))
qed


text \<open>
  C1 (as amended). For a meta-line tagged \<open>##contig=\<close>, \<open>##INFO=\<close> or \<open>##FORMAT=\<close>,
  split at its first \<open>ID=\<close>, the identifier appended to the corresponding list is the
  text \<open>v\<close> from there up to the next comma, escaped or not; when no comma follows, it
  is the text up to the next \<open>>\<close> for a contig line, and for any of the three tags when
  that \<open>>\<close> ends the line. An empty value appends nothing.
\<close>

theorem parse_meta_line_identifier:
  assumes split: "strip raw = pre @ ''ID='' @ v @ rest"
    and first: "\<not> (\<exists>a b. pre = a @ ''ID='' @ b)"
    and tag: "startswith (strip raw) ''##contig='' \<or> startswith (strip raw) ''##INFO=''
              \<or> startswith (strip raw) ''##FORMAT=''"
    and v: "CHR '','' \<notin> set v"
    and stop: "(\<exists>rest'. rest = CHR '','' # rest')
               \<or> (CHR '','' \<notin> set rest \<and> CHR ''>'' \<notin> set v
                    \<and> (rest = ''>''
                         \<or> (startswith (strip raw) ''##contig='' \<and> (\<exists>rest'. rest = CHR ''>'' # rest'))))"
  shows "inspect_line raw r =
     (if v = [] then r\<lparr>header_line_count := header_line_count r + 1\<rparr>
      else if startswith (strip raw) ''##contig='' then
        r\<lparr>header_line_count := header_line_count r + 1, contigs := contigs r @ [v]\<rparr>
      else if startswith (strip raw) ''##INFO='' then
        r\<lparr>header_line_count := header_line_count r + 1, info_fields := info_fields r @ [v]\<rparr>
      else
        r\<lparr>header_line_count := header_line_count r + 1, format_fields := format_fields r @ [v]\<rparr>)"
proof -
  let ?line = "strip raw"
  have meta: "startswith ?line ''##''" using tag tags_are_meta [of ?line] by blast
  note excl = tags_exclusive [of ?line]
  from stop show ?thesis
  proof (elim disjE conjE exE)
    fix rest' assume rest: "rest = CHR '','' # rest'"
    have line: "?line = pre @ ''ID='' @ v @ CHR '','' # rest'" by (simp add: split rest)
    note f = extract_with_comma [OF first v line]
    have f0: "v = [] \<Longrightarrow> str_slice ?line (int (length pre) + 3) (int (length pre) + 3) = []"
      using f(3) by simp
    show ?thesis using tag excl meta
      by (auto simp add: inspect_line_def parse_meta_line_def Let_def f f0)
  next
    assume nc: "CHR '','' \<notin> set rest" and nb: "CHR ''>'' \<notin> set v" and rest: "rest = ''>''"
    have line: "?line = pre @ ''ID='' @ v @ CHR ''>'' # []" by (simp add: split rest)
    have nc': "CHR '','' \<notin> set []" by simp
    note f = extract_with_bracket [OF first v nb nc' line]
    have f0: "v = [] \<Longrightarrow> str_slice ?line (int (length pre) + 3) (int (length pre) + 3) = []"
      using f(4) by simp
    show ?thesis using tag excl meta
      by (auto simp add: inspect_line_def parse_meta_line_def Let_def f f0)
  next
    fix rest' assume nc: "CHR '','' \<notin> set rest" and nb: "CHR ''>'' \<notin> set v"
      and contig: "startswith ?line ''##contig=''" and rest: "rest = CHR ''>'' # rest'"
    have line: "?line = pre @ ''ID='' @ v @ CHR ''>'' # rest'" by (simp add: split rest)
    have nc': "CHR '','' \<notin> set rest'" using nc rest by simp
    note f = extract_with_bracket [OF first v nb nc' line]
    have f0: "v = [] \<Longrightarrow> str_slice ?line (int (length pre) + 3) (int (length pre) + 3) = []"
      using f(4) by simp
    show ?thesis using contig excl meta
      by (auto simp add: inspect_line_def parse_meta_line_def Let_def f f0)
  qed
qed


lemma find_from_at_front: "startswith s sub \<Longrightarrow> find_from sub s i = int i"
  by (cases s) (auto simp: startswith_def)

lemma find_from_present:
  "s = a @ sub @ b \<Longrightarrow> 0 \<le> find_from sub s i"
proof (induction a arbitrary: s i)
  case Nil
  then have "startswith s sub" by (simp add: startswith_def)
  then show ?case by (simp add: find_from_at_front)
next
  case (Cons x a)
  then show ?case by (auto simp: startswith_def)
qed

text \<open>
  C1 as stated fails on a value with an escaped comma: the code stops at the first comma
  whether or not a backslash precedes it, where the stated rule reads on to the next
  unescaped one.
\<close>

theorem parse_meta_line_identifier_counterexample:
  "inspect_line info_escaped (fresh_result ''x.vcf'') =
     \<lparr>file_path = ''x.vcf'', sample_count = 0, variant_count = 0, contigs = [],
      info_fields = [''A'' @ [CHR 0x5C]], format_fields = [], header_line_count = 1\<rparr>
   \<and> spec_extract_id (strip info_escaped) = Some (''A'' @ [CHR 0x5C] @ '',B'')"
  by code_simp

theorem parse_meta_line_identifier_witness:
  "inspect_line contig1 (fresh_result ''x.vcf'') =
     \<lparr>file_path = ''x.vcf'', sample_count = 0, variant_count = 0, contigs = [''1''],
      info_fields = [], format_fields = [], header_line_count = 1\<rparr>"
proof -
  have split: "strip contig1 = ''##contig=<'' @ ''ID='' @ ''1'' @ '',length=249250621>''"
    by code_simp
  have first: "\<not> (\<exists>a b. ''##contig=<'' = a @ ''ID='' @ b)"
  proof
    assume "\<exists>a b. ''##contig=<'' = a @ ''ID='' @ b"
    then obtain a b where "''##contig=<'' = a @ ''ID='' @ b" by blast
    from find_from_present [OF this, of 0] have "0 \<le> find_from ''ID='' ''##contig=<'' 0" .
    moreover have "find_from ''ID='' ''##contig=<'' 0 = - 1" by code_simp
    ultimately show False by simp
  qed
  have tag: "startswith (strip contig1) ''##contig=''" by code_simp
  have v: "CHR '','' \<notin> set ''1''" by simp
  have stop: "\<exists>rest'. '',length=249250621>'' = CHR '','' # rest'" by simp
  from parse_meta_line_identifier [OF split first _ v, of "fresh_result ''x.vcf''"] tag stop
  show ?thesis by (simp add: fresh_result_def)
qed

section \<open>Meta-lines and the field lists\<close>

lemma parse_meta_line_no_ID:
  assumes "\<not> (\<exists>a b. line = a @ ''ID='' @ b)"
  shows "parse_meta_line line r = r"
proof -
  have "str_find line ''ID='' 0 = - 1"
    using find_from_absent [OF assms, of 0] by (simp add: str_find_def)
  then show ?thesis by (simp add: parse_meta_line_def Let_def)
qed

lemma parse_meta_line_other_tag:
  assumes "\<not> startswith line ''##contig=''" "\<not> startswith line ''##INFO=''"
    "\<not> startswith line ''##FORMAT=''"
  shows "parse_meta_line line r = r"
  using assms by (simp add: parse_meta_line_def)

lemma parse_meta_line_lists:
  "contigs (parse_meta_line line r) = contigs r @ contigs (parse_meta_line line (fresh_result p))"
  "info_fields (parse_meta_line line r) = info_fields r @ info_fields (parse_meta_line line (fresh_result p))"
  "format_fields (parse_meta_line line r) = format_fields r @ format_fields (parse_meta_line line (fresh_result p))"
  by (simp_all add: parse_meta_line_def Let_def fresh_result_def)

lemma inspect_line_lists:
  "contigs (inspect_line l r) = contigs r @ contigs (inspect_line l (fresh_result p))"
  "info_fields (inspect_line l r) = info_fields r @ info_fields (inspect_line l (fresh_result p))"
  "format_fields (inspect_line l r) = format_fields r @ format_fields (inspect_line l (fresh_result p))"
proof -
  let ?line = "strip l"
  have fresh: "contigs (fresh_result p) = []" "info_fields (fresh_result p) = []"
    "format_fields (fresh_result p) = []"
    by (simp_all add: fresh_result_def)
  have bump: "contigs (parse_meta_line ?line (r'\<lparr>header_line_count := n\<rparr>)) =
        contigs r' @ contigs (parse_meta_line ?line (fresh_result p))"
      "info_fields (parse_meta_line ?line (r'\<lparr>header_line_count := n\<rparr>)) =
        info_fields r' @ info_fields (parse_meta_line ?line (fresh_result p))"
      "format_fields (parse_meta_line ?line (r'\<lparr>header_line_count := n\<rparr>)) =
        format_fields r' @ format_fields (parse_meta_line ?line (fresh_result p))"
    for r' :: InspectionResult and n
    using parse_meta_line_lists [of ?line "r'\<lparr>header_line_count := n\<rparr>" p] by simp_all
  show "contigs (inspect_line l r) = contigs r @ contigs (inspect_line l (fresh_result p))"
    by (simp add: inspect_line_def Let_def bump fresh)
  show "info_fields (inspect_line l r) = info_fields r @ info_fields (inspect_line l (fresh_result p))"
    by (simp add: inspect_line_def Let_def bump fresh)
  show "format_fields (inspect_line l r) = format_fields r @ format_fields (inspect_line l (fresh_result p))"
    by (simp add: inspect_line_def Let_def bump fresh)
qed

lemma foldl_lists:
  "contigs (foldl (\<lambda>acc l. inspect_line l acc) r ls) =
     contigs r @ concat (map (\<lambda>x. contigs (inspect_line x (fresh_result p))) ls)"
  "info_fields (foldl (\<lambda>acc l. inspect_line l acc) r ls) =
     info_fields r @ concat (map (\<lambda>x. info_fields (inspect_line x (fresh_result p))) ls)"
  "format_fields (foldl (\<lambda>acc l. inspect_line l acc) r ls) =
     format_fields r @ concat (map (\<lambda>x. format_fields (inspect_line x (fresh_result p))) ls)"
proof (induction ls arbitrary: r)
  case Nil
  {
    case 1 show ?case by simp
  next
    case 2 show ?case by simp
  next
    case 3 show ?case by simp
  }
next
  case (Cons l ls)
  {
    case 1 show ?case
      by (simp add: Cons.IH(1) inspect_line_lists(1) [of l r p])
  next
    case 2 show ?case
      by (simp add: Cons.IH(2) inspect_line_lists(2) [of l r p])
  next
    case 3 show ?case
      by (simp add: Cons.IH(3) inspect_line_lists(3) [of l r p])
  }
qed

text \<open>
  C9 (as amended). A meta-line that does not contain the substring \<open>ID=\<close> adds no
  entry to \<open>contigs\<close>, \<open>info_fields\<close> or \<open>format_fields\<close>; a meta-line whose tag is
  none of \<open>##contig=\<close>, \<open>##INFO=\<close>, \<open>##FORMAT=\<close> increments \<open>header_line_count\<close> and
  leaves the three lists as they are; and each list of the summary is the concatenation,
  in input order, of what every line contributes on its own, so order and duplicates are
  kept.
\<close>

theorem meta_lines_field_lists:
  "(is_meta_line l \<and> \<not> (\<exists>a b. strip l = a @ ''ID='' @ b) \<longrightarrow>
      contigs (inspect_line l r) = contigs r
      \<and> info_fields (inspect_line l r) = info_fields r
      \<and> format_fields (inspect_line l r) = format_fields r)
   \<and> (is_meta_line l \<and> \<not> startswith (strip l) ''##contig=''
        \<and> \<not> startswith (strip l) ''##INFO='' \<and> \<not> startswith (strip l) ''##FORMAT='' \<longrightarrow>
      header_line_count (inspect_line l r) = header_line_count r + 1
      \<and> contigs (inspect_line l r) = contigs r
      \<and> info_fields (inspect_line l r) = info_fields r
      \<and> format_fields (inspect_line l r) = format_fields r)
   \<and> (open_text env (opener_for p) (path_str p) = Inr (map Line ls) \<longrightarrow>
      (\<exists>res. inspect env p = Inr res
         \<and> contigs res = concat (map (\<lambda>x. contigs (inspect_line x (fresh_result p))) ls)
         \<and> info_fields res = concat (map (\<lambda>x. info_fields (inspect_line x (fresh_result p))) ls)
         \<and> format_fields res = concat (map (\<lambda>x. format_fields (inspect_line x (fresh_result p))) ls)))"
proof (intro conjI impI)
  assume a: "is_meta_line l \<and> \<not> (\<exists>a b. strip l = a @ ''ID='' @ b)"
  then have eq: "inspect_line l r = r\<lparr>header_line_count := header_line_count r + 1\<rparr>"
    by (simp add: inspect_line_def Let_def is_meta_line_def parse_meta_line_no_ID)
  show "contigs (inspect_line l r) = contigs r" by (simp add: eq)
  show "info_fields (inspect_line l r) = info_fields r" by (simp add: eq)
  show "format_fields (inspect_line l r) = format_fields r" by (simp add: eq)
next
  assume a: "is_meta_line l \<and> \<not> startswith (strip l) ''##contig=''
        \<and> \<not> startswith (strip l) ''##INFO='' \<and> \<not> startswith (strip l) ''##FORMAT=''"
  then have eq: "inspect_line l r = r\<lparr>header_line_count := header_line_count r + 1\<rparr>"
    by (simp add: inspect_line_def Let_def is_meta_line_def parse_meta_line_other_tag)
  show "header_line_count (inspect_line l r) = header_line_count r + 1" by (simp add: eq)
  show "contigs (inspect_line l r) = contigs r" by (simp add: eq)
  show "info_fields (inspect_line l r) = info_fields r" by (simp add: eq)
  show "format_fields (inspect_line l r) = format_fields r" by (simp add: eq)
next
  assume a: "open_text env (opener_for p) (path_str p) = Inr (map Line ls)"
  let ?res = "foldl (\<lambda>acc l. inspect_line l acc) (fresh_result p) ls"
  have run: "inspect env p = Inr ?res" by (rule inspect_lines [OF a])
  have fresh: "contigs (fresh_result p) = []" "info_fields (fresh_result p) = []"
    "format_fields (fresh_result p) = []"
    by (simp_all add: fresh_result_def)
  have "contigs ?res = concat (map (\<lambda>x. contigs (inspect_line x (fresh_result p))) ls)"
    by (simp add: foldl_lists(1) [of "fresh_result p" ls p] fresh)
  moreover have "info_fields ?res = concat (map (\<lambda>x. info_fields (inspect_line x (fresh_result p))) ls)"
    by (simp add: foldl_lists(2) [of "fresh_result p" ls p] fresh)
  moreover have "format_fields ?res = concat (map (\<lambda>x. format_fields (inspect_line x (fresh_result p))) ls)"
    by (simp add: foldl_lists(3) [of "fresh_result p" ls p] fresh)
  ultimately show "\<exists>res. inspect env p = Inr res
         \<and> contigs res = concat (map (\<lambda>x. contigs (inspect_line x (fresh_result p))) ls)
         \<and> info_fields res = concat (map (\<lambda>x. info_fields (inspect_line x (fresh_result p))) ls)
         \<and> format_fields res = concat (map (\<lambda>x. format_fields (inspect_line x (fresh_result p))) ls)"
    using run by blast
qed

text \<open>
  C9 as stated fails on a line whose only keys are \<open>UID\<close>, \<open>Number\<close> and \<open>Type\<close>: it
  has no \<open>ID\<close> key, yet the search finds \<open>ID=\<close> inside \<open>UID=\<close> and \<open>7\<close> is appended to
  \<open>info_fields\<close>.
\<close>

theorem meta_lines_field_lists_counterexample:
  "meta_keys (strip info_uid) = [''UID'', ''Number'', ''Type'']
   \<and> \<not> has_id_key (strip info_uid)
   \<and> inspect_line info_uid (fresh_result ''x.vcf'') =
       \<lparr>file_path = ''x.vcf'', sample_count = 0, variant_count = 0, contigs = [],
        info_fields = [''7''], format_fields = [], header_line_count = 1\<rparr>"
  by code_simp

theorem meta_lines_field_lists_witness:
  "info_fields (inspect_line info_no_id (fresh_result ''x.vcf'')) = []
   \<and> header_line_count (inspect_line source_line (fresh_result ''x.vcf'')) = 1
   \<and> contigs (inspect_line source_line (fresh_result ''x.vcf'')) = []
   \<and> (\<exists>res. inspect (text_env [contig1, source_line, contig2, contig1]) ''x.vcf'' = Inr res
         \<and> contigs res = [''1'', ''2'', ''1''])"
proof -
  let ?r = "fresh_result ''x.vcf''"
  let ?ls = "[contig1, source_line, contig2, contig1]"
  have no_id: "\<not> (\<exists>a b. strip info_no_id = a @ ''ID='' @ b)"
  proof
    assume "\<exists>a b. strip info_no_id = a @ ''ID='' @ b"
    then obtain a b where "strip info_no_id = a @ ''ID='' @ b" by blast
    from find_from_present [OF this, of 0] have "0 \<le> find_from ''ID='' (strip info_no_id) 0" .
    moreover have "find_from ''ID='' (strip info_no_id) 0 = - 1" by code_simp
    ultimately show False by simp
  qed
  have m1: "is_meta_line info_no_id" and m2: "is_meta_line source_line" by code_simp+
  have other: "\<not> startswith (strip source_line) ''##contig=''"
    "\<not> startswith (strip source_line) ''##INFO=''" "\<not> startswith (strip source_line) ''##FORMAT=''"
    by code_simp+
  have rd: "open_text (text_env ?ls) (opener_for ''x.vcf'') (path_str ''x.vcf'') = Inr (map Line ?ls)"
    by (simp add: text_env_def)
  have each: "contigs (inspect_line contig1 ?r) = [''1'']" "contigs (inspect_line source_line ?r) = []"
    "contigs (inspect_line contig2 ?r) = [''2'']"
    by code_simp+
  from meta_lines_field_lists [of info_no_id ?r "text_env ?ls" "''x.vcf''" ?ls] m1 no_id rd
  have a: "info_fields (inspect_line info_no_id ?r) = info_fields ?r"
    and c: "\<exists>res. inspect (text_env ?ls) ''x.vcf'' = Inr res
         \<and> contigs res = concat (map (\<lambda>x. contigs (inspect_line x ?r)) ?ls)"
    by blast+
  from meta_lines_field_lists [of source_line ?r "text_env ?ls" "''x.vcf''" ?ls] m2 other
  have b: "header_line_count (inspect_line source_line ?r) = header_line_count ?r + 1"
    "contigs (inspect_line source_line ?r) = contigs ?r"
    by blast+
  have fr: "info_fields ?r = []" "header_line_count ?r = 0" "contigs ?r = []"
    by (simp_all add: fresh_result_def)
  from a b c show ?thesis by (simp add: each fr)
qed

section \<open>Failures of inspect\<close>

lemma inspect_loop_raise:
  "inspect_loop (map Line ls @ Raise e # rest) r = Inl e"
  by (induction ls arbitrary: r) simp_all


text \<open>
  C8. \<open>inspect\<close> is all-or-nothing: when the file cannot be opened the error raised by
  the opener is the outcome; when reading or decoding fails after any number of lines
  that error is the outcome and no summary is returned; a summary is returned only when
  the file is read to its end, and then every line has been processed.
\<close>

theorem inspect_all_or_nothing:
  "(open_text env (opener_for p) (path_str p) = Inl e \<longrightarrow> inspect env p = Inl e)
   \<and> (open_text env (opener_for p) (path_str p) = Inr (map Line ls @ Raise e # rest) \<longrightarrow>
        inspect env p = Inl e)
   \<and> (open_text env (opener_for p) (path_str p) = Inr (map Line ls) \<longrightarrow>
        inspect env p = Inr (foldl (\<lambda>acc l. inspect_line l acc) (fresh_result p) ls))"
  by (simp add: inspect_def inspect_loop_raise inspect_loop_lines)

theorem inspect_all_or_nothing_witness:
  "inspect (outcome_env (Inl (OSError ''No such file or directory''))) ''x.vcf''
     = Inl (OSError ''No such file or directory'')
   \<and> inspect (outcome_env (Inr [Line meta1, Line hdr10, Raise (UnicodeDecodeError ''invalid start byte''), Line data1])) ''x.vcf''
     = Inl (UnicodeDecodeError ''invalid start byte'')
   \<and> inspect (outcome_env (Inr [Line meta1, Line hdr10, Line data1])) ''x.vcf''
     = Inr \<lparr>file_path = ''x.vcf'', sample_count = 1, variant_count = 1, contigs = [],
          info_fields = [], format_fields = [], header_line_count = 2\<rparr>"
proof -
  have run: "foldl (\<lambda>acc l. inspect_line l acc) (fresh_result ''x.vcf'') [meta1, hdr10, data1]
     = \<lparr>file_path = ''x.vcf'', sample_count = 1, variant_count = 1, contigs = [],
          info_fields = [], format_fields = [], header_line_count = 2\<rparr>"
    by code_simp
  from inspect_all_or_nothing [of "outcome_env (Inl (OSError ''No such file or directory''))"
      "''x.vcf''" "OSError ''No such file or directory''" "[]" "[]"]
  have a: "inspect (outcome_env (Inl (OSError ''No such file or directory''))) ''x.vcf''
     = Inl (OSError ''No such file or directory'')"
    by (simp add: outcome_env_def)
  from inspect_all_or_nothing [of "outcome_env (Inr [Line meta1, Line hdr10, Raise (UnicodeDecodeError ''invalid start byte''), Line data1])"
      "''x.vcf''" "UnicodeDecodeError ''invalid start byte''" "[meta1, hdr10]" "[Line data1]"]
  have b: "inspect (outcome_env (Inr [Line meta1, Line hdr10, Raise (UnicodeDecodeError ''invalid start byte''), Line data1])) ''x.vcf''
     = Inl (UnicodeDecodeError ''invalid start byte'')"
    by (simp add: outcome_env_def)
  from inspect_all_or_nothing [of "outcome_env (Inr [Line meta1, Line hdr10, Line data1])"
      "''x.vcf''" "OSError []" "[meta1, hdr10, data1]" "[]"]
  have c: "inspect (outcome_env (Inr [Line meta1, Line hdr10, Line data1])) ''x.vcf''
     = Inr (foldl (\<lambda>acc l. inspect_line l acc) (fresh_result ''x.vcf'') [meta1, hdr10, data1])"
    by (simp add: outcome_env_def)
  from a b c run show ?thesis by simp
qed

section \<open>Validation of a binary fileset\<close>

lemma check_bed_missing:
  "path_exists env bed = Inr False \<Longrightarrow> check_bed env bed report = Inr report"
  by (simp add: check_bed_def)

lemma check_bed_read:
  "path_exists env bed = Inr True \<Longrightarrow> open_bytes env bed = Inr content \<Longrightarrow>
     check_bed env bed report =
       Inr (if take 3 content = PLINK_BED_MAGIC then report\<lparr>valid := valid report + 1\<rparr>
            else report\<lparr>invalid := invalid report @ [''Invalid .bed magic bytes: '' @ bed]\<rparr>)"
  by (simp add: check_bed_def Let_def)

lemma check_bed_raises:
  "path_exists env bed = Inr True \<Longrightarrow> open_bytes env bed = Inl e \<Longrightarrow>
     check_bed env bed report = Inl e"
  by (simp add: check_bed_def)

text \<open>
  The report of \<open>validate_plink_binary\<close> whenever the three existence tests answer and
  the \<open>.bed\<close> file is missing or can be read.
\<close>

lemma validate_plink_binary_value:
  assumes bed: "bed = path_str (path_str p @ ''.bed'')"
    and bim: "bim = path_str (path_str p @ ''.bim'')"
    and fam: "fam = path_str (path_str p @ ''.fam'')"
    and eb: "path_exists env bed = Inr eb" and em: "path_exists env bim = Inr em"
    and ef: "path_exists env fam = Inr ef"
    and rd: "\<not> eb \<or> open_bytes env bed = Inr content"
  shows "validate_plink_binary env p =
          Inr \<lparr>files_checked = 3,
               valid = (if eb \<and> take 3 content = PLINK_BED_MAGIC then 1 else 0)
                     + (if em then 1 else 0) + (if ef then 1 else 0),
               invalid = (if eb then [] else [''Missing .bed file: '' @ bed])
                     @ (if em then [] else [''Missing .bim file: '' @ bim])
                     @ (if ef then [] else [''Missing .fam file: '' @ fam])
                     @ (if eb \<and> take 3 content \<noteq> PLINK_BED_MAGIC
                        then [''Invalid .bed magic bytes: '' @ bed] else []),
               warnings = []\<rparr>"
proof (cases eb)
  case False
  with eb have miss: "path_exists env bed = Inr False" by simp
  show ?thesis
    unfolding validate_plink_binary_def Let_def bed [symmetric] bim [symmetric] fam [symmetric]
    by (simp add: miss em ef check_bed_missing [OF miss] count_if_exists_def new_report_def False)
next
  case True
  with eb have found: "path_exists env bed = Inr True" by simp
  from rd True have rd': "open_bytes env bed = Inr content" by simp
  show ?thesis
    unfolding validate_plink_binary_def Let_def bed [symmetric] bim [symmetric] fam [symmetric]
    by (simp add: found em ef check_bed_read [OF found rd'] count_if_exists_def new_report_def
        True)
qed

text \<open>An existing \<open>.bed\<close> file that cannot be opened makes the function raise.\<close>

lemma validate_plink_binary_raises:
  assumes bed: "bed = path_str (path_str p @ ''.bed'')"
    and eb: "path_exists env bed = Inr True"
    and em: "path_exists env (path_str (path_str p @ ''.bim'')) = Inr em"
    and ef: "path_exists env (path_str (path_str p @ ''.fam'')) = Inr ef"
    and rd: "open_bytes env bed = Inl e"
  shows "validate_plink_binary env p = Inl e"
  unfolding validate_plink_binary_def Let_def bed [symmetric]
  by (simp add: eb em ef check_bed_raises [OF eb rd])

text \<open>
  A complete fileset, also reached through a prefix that \<open>Path\<close> normalises, and a
  fileset without its \<open>.bed\<close> file.
\<close>

lemma validate_plink_binary_samples:
  "validate_plink_binary (fs_env triad_ok) ''data'' =
     Inr \<lparr>files_checked = 3, valid = 3, invalid = [], warnings = []\<rparr>"
  "validate_plink_binary (fs_env triad_ok) ''./data/'' =
     Inr \<lparr>files_checked = 3, valid = 3, invalid = [], warnings = []\<rparr>"
  "validate_plink_binary (fs_env triad_no_bed) ''data'' =
     Inr \<lparr>files_checked = 3, valid = 2, invalid = [''Missing .bed file: data.bed''],
          warnings = []\<rparr>"
  by code_simp+

text \<open>
  C4 fails where the \<open>.bed\<close> file exists but cannot be opened: here all three files
  exist and the first three bytes of the \<open>.bed\<close> file are \<open>0x6C 0x1B 0x01\<close>, so a report
  with \<open>all_valid\<close> is due, but the \<open>OSError\<close> raised by \<open>open\<close> leaves
  \<open>validate_plink_binary\<close> and no report is returned.
\<close>

theorem validate_plink_binary_protected_bed:
  "map_of triad_bed_protected ''data.bed'' = Some (Protected [0x6C, 0x1B, 0x01, 0x00, 0x00])
   \<and> take 3 [0x6C, 0x1B, 0x01, 0x00, 0x00] = PLINK_BED_MAGIC
   \<and> path_exists (fs_env triad_bed_protected) ''data.bed'' = Inr True
   \<and> path_exists (fs_env triad_bed_protected) ''data.bim'' = Inr True
   \<and> path_exists (fs_env triad_bed_protected) ''data.fam'' = Inr True
   \<and> validate_plink_binary (fs_env triad_bed_protected) ''data'' = Inl (OSError ''Permission denied'')"
  by code_simp

text \<open>
  C5 fails for \<open>validate_plink_binary\<close>: when the \<open>.bed\<close> path exists but cannot be
  opened (here it is a directory), the \<open>OSError\<close> raised by \<open>open\<close> leaves the function
  and no report is returned, although \<open>validate_vcf\<close> turns the same error on the same
  path into a violation entry.
\<close>

theorem validate_plink_binary_unreadable_bed:
  "path_exists (fs_env triad_bed_dir) ''data.bed'' = Inr True
   \<and> open_bytes (fs_env triad_bed_dir) ''data.bed'' = Inl (OSError ''Is a directory'')
   \<and> validate_plink_binary (fs_env triad_bed_dir) ''data'' = Inl (OSError ''Is a directory'')
   \<and> is_os_error (OSError ''Is a directory'')
   \<and> validate_vcf (fs_env triad_bed_dir) ''data.bed'' =
       Inr \<lparr>files_checked = 1, valid = 0, invalid = [''Read error: Is a directory''],
            warnings = []\<rparr>"
  by code_simp

section \<open>Batch validation\<close>

lemma foldl_aggregate:
  "foldl aggregate c subs =
     \<lparr>files_checked = files_checked c + sum_list (map files_checked subs),
      valid = valid c + sum_list (map valid subs),
      invalid = invalid c @ concat (map invalid subs),
      warnings = warnings c @ concat (map warnings subs)\<rparr>"
  by (induction subs arbitrary: c) (simp_all add: aggregate_def)

lemma validate_batch_loop_reports:
  "map (validate_path env) ps = map Inr subs \<Longrightarrow>
     validate_batch_loop env ps c = Inr (foldl aggregate c subs)"
proof (induction ps arbitrary: subs c)
  case Nil
  then show ?case by simp
next
  case (Cons p ps)
  then obtain sub subs' where subs: "subs = sub # subs'" by (cases subs) auto
  with Cons.prems have "validate_path env p = Inr sub"
    and "map (validate_path env) ps = map Inr subs'" by simp_all
  with Cons.IH [of subs' "aggregate c sub"] show ?case by (simp add: subs)
qed

lemma validate_batch_loop_raises:
  "map (validate_path env) ps = map Inr subs \<Longrightarrow> validate_path env q = Inl e \<Longrightarrow>
     validate_batch_loop env (ps @ q # qs) c = Inl e"
proof (induction ps arbitrary: subs c)
  case Nil
  then show ?case by simp
next
  case (Cons p ps)
  then obtain sub subs' where subs: "subs = sub # subs'" by (cases subs) auto
  with Cons.prems have "validate_path env p = Inr sub"
    and "map (validate_path env) ps = map Inr subs'" by simp_all
  with Cons.IH [of subs' "aggregate c sub"] Cons.prems(2) show ?case by simp
qed

text \<open>
  When every dispatched check returns a report, the batch returns the sums and the
  in-order concatenations; the first check that raises makes the batch raise.
\<close>

lemma validate_batch_reports:
  assumes "map (\<lambda>p. if suffix p = ''.vcf'' \<or> suffix p = ''.gz'' then validate_vcf env p
                     else validate_plink_binary env p) ps = map Inr subs"
  shows "validate_batch env ps =
     Inr \<lparr>files_checked = sum_list (map files_checked subs),
          valid = sum_list (map valid subs),
          invalid = concat (map invalid subs),
          warnings = concat (map warnings subs)\<rparr>"
proof -
  have "(\<lambda>p. if suffix p = ''.vcf'' \<or> suffix p = ''.gz'' then validate_vcf env p
              else validate_plink_binary env p) = validate_path env"
    by (rule ext) (simp add: validate_path_def)
  with assms have "map (validate_path env) ps = map Inr subs" by simp
  from validate_batch_loop_reports [OF this, of "new_report 0"]
  show ?thesis by (simp add: validate_batch_def foldl_aggregate new_report_def)
qed

lemma validate_batch_raises:
  assumes "map (validate_path env) ps = map Inr subs" and "validate_path env q = Inl e"
  shows "validate_batch env (ps @ q # qs) = Inl e"
  using validate_batch_loop_raises [OF assms] by (simp add: validate_batch_def)

text \<open>
  A batch whose checks all return: a text file named with a trailing slash, a fileset
  without its \<open>.bed\<close> file, and a missing text file.
\<close>

lemma validate_batch_samples:
  "validate_batch (fs_env (vcf_ok @ triad_no_bed)) [''x.vcf/'', ''data'', ''y.vcf''] =
     Inr \<lparr>files_checked = 5, valid = 3,
          invalid = [''Missing .bed file: data.bed'', ''File not found: y.vcf''],
          warnings = []\<rparr>"
  by code_simp

text \<open>
  C7 fails on a batch with a fileset whose \<open>.bed\<close> file exists but cannot be opened: the
  text check of the first path returns its report, the fileset check raises, and
  \<open>validate_batch\<close> raises with it instead of returning a combined report.
\<close>

theorem validate_batch_protected_bed:
  "suffix ''x.vcf'' = ''.vcf'' \<and> suffix ''data'' = []
   \<and> validate_vcf (fs_env (vcf_ok @ triad_bed_protected)) ''x.vcf'' =
       Inr \<lparr>files_checked = 1, valid = 1, invalid = [], warnings = []\<rparr>
   \<and> validate_plink_binary (fs_env (vcf_ok @ triad_bed_protected)) ''data'' =
       Inl (OSError ''Permission denied'')
   \<and> validate_batch (fs_env (vcf_ok @ triad_bed_protected)) [''x.vcf'', ''data''] =
       Inl (OSError ''Permission denied'')"
  by code_simp

text \<open>
  C10. \<open>validate_batch\<close> of the empty list returns the report with no file checked, no
  valid file, no violation and no warning, which is \<open>all_valid\<close>; that report is a
  left and right identity of the aggregation step of the batch loop.
\<close>

theorem validate_batch_empty:
  "validate_batch env [] = Inr (new_report 0)
   \<and> files_checked (new_report 0) = 0 \<and> valid (new_report 0) = 0
   \<and> invalid (new_report 0) = [] \<and> warnings (new_report 0) = []
   \<and> all_valid (new_report 0)
   \<and> aggregate (new_report 0) r = r \<and> aggregate r (new_report 0) = r"
  by (simp add: validate_batch_def new_report_def all_valid_def aggregate_def)

theorem validate_batch_empty_witness:
  "validate_batch (text_env []) [] = Inr \<lparr>files_checked = 0, valid = 0, invalid = [], warnings = []\<rparr>
   \<and> aggregate (new_report 0) \<lparr>files_checked = 3, valid = 2, invalid = [''x''], warnings = []\<rparr>
       = \<lparr>files_checked = 3, valid = 2, invalid = [''x''], warnings = []\<rparr>"
  using validate_batch_empty [of "text_env []"
      "\<lparr>files_checked = 3, valid = 2, invalid = [''x''], warnings = []\<rparr>"]
  by (simp add: new_report_def)

end
